theory Spec2Isabelle
  imports Main "HOL-Library.Word"
begin

section \<open>JavaScript strings\<close>

text \<open>
  A JavaScript string is a sequence of UTF-16 code units; \<open>length\<close>, \<open>substring\<close>,
  \<open>trim\<close> and the regular expressions of \<open>api/spider.js\<close> (none has the \<open>u\<close> flag) all
  work on code units. ASCII literals of the source are written \<open>u ''...''\<close>.
\<close>

type_synonym jschar = "16 word"
type_synonym jsstring = "jschar list"

definition u :: "string \<Rightarrow> jsstring" where
  "u s = map of_char s"

text \<open>
  White space as \<open>\<bsol>s\<close> and \<open>String.prototype.trim\<close> see it (ECMAScript WhiteSpace and
  LineTerminator): TAB, LF, VT, FF, CR, SP, NBSP, U+1680, U+2000..U+200A, U+2028, U+2029,
  U+202F, U+205F, U+3000, U+FEFF.
\<close>

definition is_space :: "jschar \<Rightarrow> bool" where
  "is_space c \<longleftrightarrow>
     c = 0x09 \<or> c = 0x0A \<or> c = 0x0B \<or> c = 0x0C \<or> c = 0x0D \<or> c = 0x20 \<or> c = 0xA0 \<or>
     c = 0x1680 \<or> (0x2000 \<le> c \<and> c \<le> 0x200A) \<or> c = 0x2028 \<or> c = 0x2029 \<or>
     c = 0x202F \<or> c = 0x205F \<or> c = 0x3000 \<or> c = 0xFEFF"

definition trim :: "jsstring \<Rightarrow> jsstring" where
  "trim s = rev (dropWhile is_space (rev (dropWhile is_space s)))"

text \<open>
  Case folding of the \<open>i\<close> flag without the \<open>u\<close> flag (ECMAScript Canonicalize): a code
  unit is upper-cased, except that a code unit from 128 on never folds to one below 128.
  Every pattern character of the source is ASCII, so a subject code unit matches it exactly
  when both have the same ASCII upper case; a code unit from 128 on is left as it is.
\<close>

definition to_upper :: "jschar \<Rightarrow> jschar" where
  "to_upper c = (if 0x61 \<le> c \<and> c \<le> 0x7A then c - 0x20 else c)"

definition ci_eq :: "jschar \<Rightarrow> jschar \<Rightarrow> bool" where
  "ci_eq p c \<longleftrightarrow> to_upper p = to_upper c"

fun starts_with :: "(jschar \<Rightarrow> jschar \<Rightarrow> bool) \<Rightarrow> jsstring \<Rightarrow> jsstring \<Rightarrow> bool" where
  "starts_with eq [] s = True"
| "starts_with eq (p # ps) [] = False"
| "starts_with eq (p # ps) (c # cs) = (eq p c \<and> starts_with eq ps cs)"

section \<open>The regular expressions of the extractor\<close>

text \<open>
  The fragment of JavaScript regular expressions that \<open>extractContent\<close> uses: literal
  text (exact, or folded under the \<open>i\<close> flag), a character class repeated greedily (\<open>*\<close>,
  \<open>+\<close>) or lazily (\<open>*?\<close>), sequence, and a capture group.
\<close>

datatype cset = Only jschar | Except jschar | Any_char | Space

fun in_cset :: "cset \<Rightarrow> jschar \<Rightarrow> bool" where
  "in_cset (Only a) c = (c = a)"
| "in_cset (Except a) c = (c \<noteq> a)"
| "in_cset Any_char c = True"
| "in_cset Space c = is_space c"

datatype rx =
    Lit jsstring
  | Lit_ci jsstring
  | Star cset
  | Plus cset
  | Star_lazy cset
  | Seq rx rx
  | Group rx

text \<open>
  A matcher state is the list of captures made so far and the rest of the subject. \<open>run\<close>
  returns every way the expression can match at the head of the subject, in the order in
  which the backtracking matcher of ECMAScript tries them: a greedy repetition offers its
  longest run first, a lazy one its shortest. The first element of the result of the whole
  expression is therefore the match JavaScript reports.
\<close>

type_synonym mstate = "jsstring list \<times> jsstring"

fun run :: "rx \<Rightarrow> mstate \<Rightarrow> mstate list" where
  "run (Lit p) (caps, s) =
     (if starts_with (=) p s then [(caps, drop (length p) s)] else [])"
| "run (Lit_ci p) (caps, s) =
     (if starts_with ci_eq p s then [(caps, drop (length p) s)] else [])"
| "run (Star cs) (caps, s) =
     map (\<lambda>n. (caps, drop n s)) (rev [0 ..< Suc (length (takeWhile (in_cset cs) s))])"
| "run (Plus cs) (caps, s) =
     map (\<lambda>n. (caps, drop n s)) (rev [1 ..< Suc (length (takeWhile (in_cset cs) s))])"
| "run (Star_lazy cs) (caps, s) =
     map (\<lambda>n. (caps, drop n s)) [0 ..< Suc (length (takeWhile (in_cset cs) s))]"
| "run (Seq a b) st = concat (map (run b) (run a st))"
| "run (Group a) (caps, s) =
     map (\<lambda>(caps', s'). (caps' @ [take (length s - length s') s], s')) (run a (caps, s))"

text \<open>A match at the head of \<open>s\<close>: the captures and the number of code units matched.\<close>

definition match_at :: "rx \<Rightarrow> jsstring \<Rightarrow> (jsstring list \<times> nat) option" where
  "match_at re s =
     (case run re ([], s) of
        [] \<Rightarrow> None
      | (caps, s') # _ \<Rightarrow> Some (caps, length s - length s'))"

text \<open>\<open>String.prototype.match\<close> with a non-global expression: the leftmost match.\<close>

fun js_match :: "rx \<Rightarrow> jsstring \<Rightarrow> jsstring list option" where
  "js_match re [] = map_option fst (match_at re [])"
| "js_match re (c # cs) =
     (case match_at re (c # cs) of
        Some (caps, n) \<Rightarrow> Some caps
      | None \<Rightarrow> js_match re cs)"

text \<open>
  \<open>String.prototype.replace\<close> with a global expression and a replacement string without
  \<open>$\<close>: matches are found left to right, each search resuming where the previous match
  ended (one code unit further after an empty match); unmatched code units are copied.
\<close>

fun replace_all :: "rx \<Rightarrow> jsstring \<Rightarrow> jsstring \<Rightarrow> jsstring" where
  "replace_all re rep [] = (case match_at re [] of Some _ \<Rightarrow> rep | None \<Rightarrow> [])"
| "replace_all re rep (c # cs) =
     (case match_at re (c # cs) of
        Some (caps, n) \<Rightarrow>
          (if n = 0 then rep @ c # replace_all re rep cs
           else rep @ replace_all re rep (drop (n - 1) cs))
      | None \<Rightarrow> c # replace_all re rep cs)"

text \<open>\<open>/<title[^>]*>([^<]+)<\<bsol>/title>/i\<close>\<close>

definition title_re :: rx where
  "title_re =
     Seq (Lit_ci (u ''<title'')) (Seq (Star (Except 0x3E)) (Seq (Lit_ci (u ''>''))
       (Seq (Group (Plus (Except 0x3C))) (Lit_ci (u ''</title>'')))))"

text \<open>\<open>/<TAG[^>]*>[\<bsol>s\<bsol>S]*?<\<bsol>/TAG>/gi\<close> for \<open>TAG\<close> one of script, style, nav, header, footer,
  iframe, svg.\<close>

definition block_re :: "string \<Rightarrow> rx" where
  "block_re tag =
     Seq (Lit_ci (u ''<'' @ u tag)) (Seq (Star (Except 0x3E)) (Seq (Lit_ci (u ''>''))
       (Seq (Star_lazy Any_char) (Lit_ci (u ''</'' @ u tag @ u ''>'')))))"

text \<open>\<open>/<!--[\<bsol>s\<bsol>S]*?-->/g\<close>\<close>

definition comment_re :: rx where
  "comment_re = Seq (Lit (u ''<!--'')) (Seq (Star_lazy Any_char) (Lit (u ''-->'')))"

text \<open>\<open>/<[^>]+>/g\<close>\<close>

definition tag_re :: rx where
  "tag_re = Seq (Lit (u ''<'')) (Seq (Plus (Except 0x3E)) (Lit (u ''>'')))"

text \<open>\<open>/\<bsol>n\<bsol>s*\<bsol>n/g\<close>\<close>

definition blank_lines_re :: rx where
  "blank_lines_re = Seq (Lit [0x0A]) (Seq (Star Space) (Lit [0x0A]))"

section \<open>extractContent\<close>

record extracted =
  ex_title :: jsstring
  ex_text :: jsstring

text \<open>
  The placeholder title of a page without a title match, U+65E0 U+6807 U+9898, and the
  title that the \<open>catch\<close> of line 34 returns, U+89E3 U+6790 U+5931 U+8D25.
\<close>

definition untitled :: jsstring where
  "untitled = [0x65E0, 0x6807, 0x9898]"

definition parse_failed :: jsstring where
  "parse_failed = [0x89E3, 0x6790, 0x5931, 0x8D25]"

text \<open>
  Lines 7 and 8. \<open>titleMatch[1]\<close> is the first capture; were it missing, \<open>.trim()\<close> would
  throw (\<open>None\<close>).
\<close>

definition extract_title :: "jsstring \<Rightarrow> jsstring option" where
  "extract_title html =
     (case js_match title_re html of
        None \<Rightarrow> Some untitled
      | Some [] \<Rightarrow> None
      | Some (g # _) \<Rightarrow> Some (trim g))"

definition strip_block :: "string \<Rightarrow> jsstring \<Rightarrow> jsstring" where
  "strip_block tag s = replace_all (block_re tag) [] s"

definition strip_blocks :: "jsstring \<Rightarrow> jsstring" where
  "strip_blocks html =
     strip_block ''svg'' (strip_block ''iframe'' (strip_block ''footer''
       (strip_block ''header'' (strip_block ''nav'' (replace_all comment_re []
         (strip_block ''style'' (strip_block ''script'' html)))))))"

definition clean_text :: "jsstring \<Rightarrow> jsstring" where
  "clean_text body =
     take 5000 (trim (replace_all blank_lines_re [0x0A]
       (replace_all (Lit (u ''&nbsp;'')) [0x20]
         (replace_all (Lit [0x09]) [0x20]
           (replace_all tag_re [0x0A] body)))))"

text \<open>
  \<open>extractContent\<close>, lines 4 to 36. The \<open>catch\<close> answers any exception of the body with
  the title of line 34 and an empty text; on a string, only the access to the capture could
  throw.
\<close>

definition extractContent :: "jsstring \<Rightarrow> extracted" where
  "extractContent html =
     (case extract_title html of
        None \<Rightarrow> \<lparr> ex_title = parse_failed, ex_text = [] \<rparr>
      | Some t \<Rightarrow> \<lparr> ex_title = t, ex_text = clean_text (strip_blocks html) \<rparr>)"

text \<open>The number of capture groups of an expression.\<close>

fun groups :: "rx \<Rightarrow> nat" where
  "groups (Seq a b) = groups a + groups b"
| "groups (Group a) = Suc (groups a)"
| "groups r = 0"

text \<open>
  Vocabulary for statements about the extractor: \<open>p\<close> occurs in \<open>s\<close> (at some position
  of \<open>s\<close> the pattern text \<open>p\<close> matches under \<open>eq\<close>), and \<open>s\<close> is a spelling of \<open>p\<close>
  in some mix of upper and lower case.
\<close>

fun occurs :: "(jschar \<Rightarrow> jschar \<Rightarrow> bool) \<Rightarrow> jsstring \<Rightarrow> jsstring \<Rightarrow> bool" where
  "occurs eq p [] = starts_with eq p []"
| "occurs eq p (c # cs) = (starts_with eq p (c # cs) \<or> occurs eq p cs)"

definition spelling :: "jsstring \<Rightarrow> jsstring \<Rightarrow> bool" where
  "spelling p s = list_all2 ci_eq p s"

text \<open>
  An input seen as a sequence of blocks of one tag: each block is preceded by text
  (\<open>b_before\<close>) free of the opener \<open><tag\<close>, and consists of a spelling of the opener,
  attributes without \<open>>\<close>, the \<open>>\<close>, an inner part free of the closer \<open></tag>\<close>, and a
  spelling of the closer. After the last block comes text free of the opener. \<open>outside\<close>
  is the input without its blocks.
\<close>

record block =
  b_before :: jsstring
  b_opener :: jsstring
  b_attrs :: jsstring
  b_inner :: jsstring
  b_closer :: jsstring

definition render_block :: "block \<Rightarrow> jsstring" where
  "render_block b = b_before b @ b_opener b @ b_attrs b @ 0x3E # b_inner b @ b_closer b"

definition render :: "block list \<Rightarrow> jsstring \<Rightarrow> jsstring" where
  "render bs rest = concat (map render_block bs) @ rest"

definition outside :: "block list \<Rightarrow> jsstring \<Rightarrow> jsstring" where
  "outside bs rest = concat (map b_before bs) @ rest"

definition is_block :: "string \<Rightarrow> block \<Rightarrow> bool" where
  "is_block tag b \<longleftrightarrow>
     \<not> occurs ci_eq (u ''<'' @ u tag) (b_before b) \<and>
     spelling (u ''<'' @ u tag) (b_opener b) \<and>
     0x3E \<notin> set (b_attrs b) \<and>
     \<not> occurs ci_eq (u ''</'' @ u tag @ u ''>'') (b_inner b) \<and>
     spelling (u ''</'' @ u tag @ u ''>'') (b_closer b)"

definition blocks_of :: "string \<Rightarrow> block list \<Rightarrow> jsstring \<Rightarrow> bool" where
  "blocks_of tag bs rest \<longleftrightarrow>
     list_all (is_block tag) bs \<and> \<not> occurs ci_eq (u ''<'' @ u tag) rest"

text \<open>The passes of lines 14 to 19, which follow the script and style passes.\<close>

definition later_passes :: "jsstring \<Rightarrow> jsstring" where
  "later_passes body =
     strip_block ''svg'' (strip_block ''iframe'' (strip_block ''footer''
       (strip_block ''header'' (strip_block ''nav'' (replace_all comment_re [] body)))))"

section \<open>JavaScript values and the blob store\<close>

text \<open>
  The values that \<open>JSON.parse\<close> returns and \<open>JSON.stringify\<close> writes. The handler never
  computes with a number, so an integer payload stands for it.
\<close>

datatype json =
    JNull
  | JBool bool
  | JNum int
  | JStr jsstring
  | JArr "json list"
  | JObj "(jsstring \<times> json) list"

text \<open>
  The spread \<open>...pendingList\<close> of line 102 iterates its operand: an array yields its
  elements, a string its code points (a surrogate pair is one element), and any other JSON
  value is not iterable, so the spread throws a TypeError.
\<close>

fun code_points :: "jsstring \<Rightarrow> jsstring list" where
  "code_points [] = []"
| "code_points [c] = [[c]]"
| "code_points (c # d # cs) =
     (if 0xD800 \<le> c \<and> c \<le> 0xDBFF \<and> 0xDC00 \<le> d \<and> d \<le> 0xDFFF
      then [c, d] # code_points cs
      else [c] # code_points (d # cs))"

fun js_iterate :: "json \<Rightarrow> json list option" where
  "js_iterate (JArr xs) = Some xs"
| "js_iterate (JStr s) = Some (map JStr (code_points s))"
| "js_iterate v = None"

text \<open>
  The store of \<open>@vercel/blob\<close>: the blobs in the order in which \<open>list\<close> enumerates them.
  The body of a blob either is not JSON (then \<open>Response.json()\<close> throws) or parses to a
  value; \<open>JSON.stringify\<close> followed by \<open>JSON.parse\<close> gives the value back.
\<close>

datatype blob_body = Not_json | Json json

record blob =
  pathname :: jsstring
  content :: blob_body

type_synonym store = "blob list"

definition pending_path :: jsstring where
  "pending_path = u ''pending.json''"

text \<open>\<open>list({ token, limit: 100 })\<close>: the first page of the listing, at most 100 blobs.\<close>

definition list_blobs :: "store \<Rightarrow> blob list" where
  "list_blobs s = take 100 s"

text \<open>
  \<open>put(path, body, { addRandomSuffix: false, ... })\<close>: the blob at \<open>path\<close> is replaced
  where it stands; a path that is new is added at the end of the listing.
\<close>

definition put_blob :: "jsstring \<Rightarrow> blob_body \<Rightarrow> store \<Rightarrow> store" where
  "put_blob path body s =
     (if path \<in> pathname ` set s
      then map (\<lambda>b. if pathname b = path then b\<lparr>content := body\<rparr> else b) s
      else s @ [\<lparr>pathname = path, content = body\<rparr>])"

text \<open>The queue document as stored, wherever it stands in the listing.\<close>

definition stored_queue :: "store \<Rightarrow> blob_body option" where
  "stored_queue s = map_option content (find (\<lambda>b. pathname b = pending_path) s)"

section \<open>The ingestion handler\<close>

datatype http_method = OPTIONS | POST | Other_method

text \<open>
  \<open>req.body\<close>: undefined (the destructuring of line 51 throws), or a value whose \<open>url\<close>
  property is absent or a string.
\<close>

datatype req_body = Body_undefined | Body_url "jsstring option"

record request =
  req_method :: http_method
  req_body :: req_body

text \<open>
  The outcome of \<open>fetch(url)\<close> and \<open>response.text()\<close> (lines 59 to 70): the request was
  aborted by the 15 s timer, failed otherwise, or was answered with \<open>ok\<close>, \<open>status\<close> and
  a body (\<open>None\<close> when reading the body throws).
\<close>

datatype page_result =
    Fetch_aborted
  | Fetch_failed
  | Fetched bool nat "jsstring option"

text \<open>The outcome of fetching the URL of the queue blob (line 82).\<close>

datatype blob_get = Get_throws | Get_not_ok | Get_ok

text \<open>
  What the world answers during one request: the environment variable, the target site,
  the blob service, \<open>Math.random().toString(36).substring(2, 10)\<close>, the date part of
  \<open>new Date().toISOString()\<close>, and \<open>new URL(url).hostname\<close> (\<open>None\<close> when the
  constructor throws).
\<close>

record env =
  token :: "jsstring option"
  page :: page_result
  list_fails :: bool
  blob_fetch :: blob_get
  rand_id :: jsstring
  today :: jsstring
  url_hostname :: "jsstring \<Rightarrow> jsstring option"
  put_fails :: bool

text \<open>
  The messages of the errors the handler reports. The first five are built by the source,
  at lines 46, 52, 68, 73 and 118; the others stand for what the runtime or the blob client
  throws: the failure to destructure \<open>req.body\<close>, a failed fetch or body read, an invalid
  URL, the spread of a value that is not iterable, and a failed put.
\<close>

datatype err =
    Token_missing
  | Url_empty
  | Upstream_status nat
  | No_usable_content
  | Fetch_timeout
  | Body_undefined_error
  | Network_error
  | Body_read_error
  | Invalid_url
  | Not_iterable
  | Put_failed

datatype thrown = Abort_error | Thrown err

datatype reply = No_body | Error_body err | Success_body json

datatype store_op = Op_list | Op_get jsstring | Op_put jsstring

record outcome =
  out_status :: nat
  out_reply :: reply
  out_store :: store
  out_ops :: "store_op list"

text \<open>Lines 59 to 73: fetch the page, extract, and reject a text shorter than 50.\<close>

definition fetch_and_extract :: "env \<Rightarrow> thrown + extracted" where
  "fetch_and_extract e =
     (case page e of
        Fetch_aborted \<Rightarrow> Inl Abort_error
      | Fetch_failed \<Rightarrow> Inl (Thrown Network_error)
      | Fetched ok st body \<Rightarrow>
          (if \<not> ok then Inl (Thrown (Upstream_status st))
           else case body of
             None \<Rightarrow> Inl (Thrown Body_read_error)
           | Some html \<Rightarrow>
               (let ex = extractContent html in
                if length (ex_text ex) < 50 then Inl (Thrown No_usable_content)
                else Inr ex)))"

text \<open>
  Lines 76 to 89, the queue read: \<open>pendingList\<close> starts as \<open>[]\<close> and is replaced only
  when \<open>list\<close> answers, a blob named \<open>pending.json\<close> is among the blobs listed, its URL
  answers with \<open>ok\<close> and its body parses. The \<open>catch\<close> swallows every exception.
\<close>

definition read_pending :: "env \<Rightarrow> store \<Rightarrow> json" where
  "read_pending e s =
     (if list_fails e then JArr []
      else case find (\<lambda>b. pathname b = pending_path) (list_blobs s) of
        None \<Rightarrow> JArr []
      | Some b \<Rightarrow>
          (case blob_fetch e of
             Get_throws \<Rightarrow> JArr []
           | Get_not_ok \<Rightarrow> JArr []
           | Get_ok \<Rightarrow> (case content b of Not_json \<Rightarrow> JArr [] | Json v \<Rightarrow> v)))"

definition read_ops :: "env \<Rightarrow> store \<Rightarrow> store_op list" where
  "read_ops e s =
     (if list_fails e then [Op_list]
      else case find (\<lambda>b. pathname b = pending_path) (list_blobs s) of
        None \<Rightarrow> [Op_list]
      | Some b \<Rightarrow> [Op_list, Op_get (pathname b)])"

text \<open>Lines 92 to 99: the new item. \<open>new URL(url)\<close> may throw.\<close>

definition new_item :: "env \<Rightarrow> jsstring \<Rightarrow> extracted \<Rightarrow> thrown + json" where
  "new_item e url ex =
     (case url_hostname e url of
        None \<Rightarrow> Inl (Thrown Invalid_url)
      | Some host \<Rightarrow>
          Inr (JObj [(u ''id'', JStr (rand_id e)), (u ''url'', JStr url),
                     (u ''title'', JStr (ex_title ex)), (u ''text'', JStr (ex_text ex)),
                     (u ''scrapedAt'', JStr (today e)), (u ''source'', JStr host)]))"

text \<open>
  Lines 92 to 111, the append: build the item, put it in front of the list that was read,
  and overwrite the queue document. The result is the item and the new store.
\<close>

definition append_pending ::
  "env \<Rightarrow> jsstring \<Rightarrow> extracted \<Rightarrow> json \<Rightarrow> store \<Rightarrow> thrown + (json \<times> store)" where
  "append_pending e url ex pendingList s =
     (case new_item e url ex of
        Inl t \<Rightarrow> Inl t
      | Inr newItem \<Rightarrow>
          (case js_iterate pendingList of
             None \<Rightarrow> Inl (Thrown Not_iterable)
           | Some old \<Rightarrow>
               (if put_fails e then Inl (Thrown Put_failed)
                else Inr (newItem, put_blob pending_path (Json (JArr (newItem # old))) s))))"

text \<open>
  The \<open>catch\<close> of lines 115 to 121 renames an AbortError and rethrows everything else; the
  outer \<open>catch\<close> of lines 123 to 126 answers 500 with the message.
\<close>

definition message_of :: "thrown \<Rightarrow> err" where
  "message_of t = (case t of Abort_error \<Rightarrow> Fetch_timeout | Thrown m \<Rightarrow> m)"

definition failed :: "thrown \<Rightarrow> store \<Rightarrow> store_op list \<Rightarrow> outcome" where
  "failed t s ops =
     \<lparr>out_status = 500, out_reply = Error_body (message_of t), out_store = s, out_ops = ops\<rparr>"

text \<open>Lines 58 to 126 for a non-empty \<open>url\<close>.\<close>

definition ingest :: "jsstring \<Rightarrow> env \<Rightarrow> store \<Rightarrow> outcome" where
  "ingest url e s =
     (case fetch_and_extract e of
        Inl t \<Rightarrow> failed t s []
      | Inr ex \<Rightarrow>
          (case append_pending e url ex (read_pending e s) s of
             Inl t \<Rightarrow> failed t s (read_ops e s)
           | Inr (newItem, s') \<Rightarrow>
               \<lparr>out_status = 200,
                out_reply = Success_body (JObj [(u ''success'', JBool True), (u ''item'', newItem)]),
                out_store = s',
                out_ops = read_ops e s @ [Op_put pending_path]\<rparr>))"

definition answer :: "nat \<Rightarrow> reply \<Rightarrow> store \<Rightarrow> outcome" where
  "answer st r s = \<lparr>out_status = st, out_reply = r, out_store = s, out_ops = []\<rparr>"

text \<open>\<open>handler\<close>, lines 38 to 127. \<open>!token\<close> and \<open>!url\<close> hold of undefined and of the empty
  string.\<close>

definition handler :: "request \<Rightarrow> env \<Rightarrow> store \<Rightarrow> outcome" where
  "handler req e s =
     (if req_method req = OPTIONS then answer 200 No_body s
      else if token e = None \<or> token e = Some [] then answer 503 (Error_body Token_missing) s
      else if req_method req \<noteq> POST then answer 405 No_body s
      else case req_body req of
        Body_undefined \<Rightarrow> answer 500 (Error_body Body_undefined_error) s
      | Body_url None \<Rightarrow> answer 400 (Error_body Url_empty) s
      | Body_url (Some url) \<Rightarrow>
          (if url = [] then answer 400 (Error_body Url_empty) s else ingest url e s))"

text \<open>
  Two requests whose awaits interleave so that both queue reads happen before either
  \<open>put\<close>: each runs lines 76 to 89 on the store as it was, then the first runs lines 92 to
  111, then the second. No step of the handler compares the store with what it read.
\<close>

definition racing_appends ::
  "env \<Rightarrow> jsstring \<Rightarrow> extracted \<Rightarrow> env \<Rightarrow> jsstring \<Rightarrow> extracted \<Rightarrow> store
     \<Rightarrow> (json \<times> json \<times> store) option" where
  "racing_appends e1 url1 ex1 e2 url2 ex2 s =
     (let read1 = read_pending e1 s; read2 = read_pending e2 s in
      case append_pending e1 url1 ex1 read1 s of
        Inl t \<Rightarrow> None
      | Inr (item1, s1) \<Rightarrow>
          (case append_pending e2 url2 ex2 read2 s1 of
             Inl t \<Rightarrow> None
           | Inr (item2, s2) \<Rightarrow> Some (item1, item2, s2)))"

text \<open>The items of the stored queue, and the \<open>id\<close> and \<open>url\<close> properties of an item.\<close>

definition queue_items :: "store \<Rightarrow> json list" where
  "queue_items s = (case stored_queue s of Some (Json (JArr q)) \<Rightarrow> q | _ \<Rightarrow> [])"

fun item_id :: "json \<Rightarrow> json option" where
  "item_id (JObj props) = map_of props (u ''id'')"
| "item_id v = None"

fun item_url :: "json \<Rightarrow> json option" where
  "item_url (JObj props) = map_of props (u ''url'')"
| "item_url v = None"

definition queue_ids :: "store \<Rightarrow> json option list" where
  "queue_ids s = map item_id (queue_items s)"

definition success_body :: "json \<Rightarrow> reply" where
  "success_body item = Success_body (JObj [(u ''success'', JBool True), (u ''item'', item)])"

section \<open>Creating a record: components/EntryForm.tsx\<close>

text \<open>
  The argument of \<open>onAdd\<close>, \<open>Omit<NewsItem, 'id'>\<close>; the form state \<open>formData\<close> has the
  same fields.
\<close>

record news_item =
  n_title :: jsstring
  n_summary :: jsstring
  n_brand :: jsstring
  n_type :: jsstring
  n_date :: jsstring
  n_url :: jsstring
  n_source :: jsstring
  n_image :: jsstring

text \<open>
  What \<open>analyzeTextWithQwen\<close> resolves to. The service is outside this component; the
  handler reads these properties, and tests \<open>url\<close> and \<open>image_keywords\<close> for presence.
\<close>

record analysis =
  a_title :: jsstring
  a_summary :: jsstring
  a_brand :: jsstring
  a_type :: jsstring
  a_date :: jsstring
  a_url :: "jsstring option"
  a_image_keywords :: "jsstring option"

text \<open>
  Modelled from the spec: the enum \<open>NewsType\<close> of \<open>types.ts\<close> is not among the sources;
  the spec lists its values as launch, policy, sales, personnel, competitor, other.
\<close>

definition news_types :: "jsstring list" where
  "news_types =
     [u ''launch'', u ''policy'', u ''sales'', u ''personnel'', u ''competitor'', u ''other'']"

text \<open>Decimal digits of a number, as a template literal prints it.\<close>

function dec :: "nat \<Rightarrow> jsstring" where
  "dec n = (if n < 10 then [0x30 + of_nat n] else dec (n div 10) @ [0x30 + of_nat (n mod 10)])"
  by pat_completeness auto
termination
  by (relation "measure id") auto

text \<open>\<open>a || b\<close> on strings.\<close>

definition or_else :: "jsstring \<Rightarrow> jsstring \<Rightarrow> jsstring" where
  "or_else a b = (if a \<noteq> [] then a else b)"

text \<open>
  \<open>generateImageUrl\<close>, lines 117 to 119. \<open>encodeURIComponent\<close> is the built-in, taken as
  a parameter: it throws a URIError on a lone surrogate (\<open>None\<close>). \<open>seed\<close> is
  \<open>Math.floor(Math.random() * 1000)\<close>.
\<close>

definition generateImageUrl ::
  "(jsstring \<Rightarrow> jsstring option) \<Rightarrow> nat \<Rightarrow> jsstring \<Rightarrow> jsstring option" where
  "generateImageUrl enc seed prompt =
     (case enc prompt of
        None \<Rightarrow> None
      | Some p \<Rightarrow>
          Some (u ''https://image.pollinations.ai/prompt/'' @ p @
                u ''?width=800&height=600&nologo=true&seed='' @ dec seed))"

text \<open>
  \<open>handleManualSubmit\<close>, lines 121 to 134: the record passed to \<open>onAdd\<close>, or \<open>None\<close> when
  an exception leaves the handler before \<open>onAdd\<close> is called.
\<close>

definition handleManualSubmit ::
  "(jsstring \<Rightarrow> jsstring option) \<Rightarrow> nat \<Rightarrow> news_item \<Rightarrow> news_item option" where
  "handleManualSubmit enc seed formData =
     (if trim (n_image formData) \<noteq> [] then Some (formData\<lparr>n_image := trim (n_image formData)\<rparr>)
      else case generateImageUrl enc seed
                  (n_brand formData @ u '' '' @ n_title formData @ u '' automotive'') of
             None \<Rightarrow> None
           | Some finalImage \<Rightarrow> Some (formData\<lparr>n_image := finalImage\<rparr>))"

text \<open>The \<open>source\<close> of a record of the AI path: \<open>AI\<close>, four CJK characters, \<open>(Qwen)\<close>.\<close>

definition ai_source :: jsstring where
  "ai_source = u ''AI '' @ [0x667A, 0x80FD, 0x63D0, 0x53D6] @ u '' (Qwen)''"

text \<open>
  \<open>handleAiAnalyze\<close>, lines 136 to 180: the record passed to \<open>onAdd\<close>, or \<open>None\<close> when the
  text is blank or the \<open>catch\<close> is reached (the analysis rejected, or the image URL could
  not be built). \<open>analyze\<close> is the outcome of \<open>analyzeTextWithQwen(aiText, availableBrands)\<close>.
  The cast \<open>result.type as NewsType\<close> of line 154 is erased by the compiler.
\<close>

definition handleAiAnalyze ::
  "(jsstring \<Rightarrow> jsstring option) \<Rightarrow> nat \<Rightarrow> (jsstring \<Rightarrow> jsstring list \<Rightarrow> analysis option)
     \<Rightarrow> jsstring list \<Rightarrow> jsstring \<Rightarrow> jsstring \<Rightarrow> news_item option" where
  "handleAiAnalyze enc seed analyze availableBrands aiText aiImageInput =
     (if trim aiText = [] then None
      else case analyze aiText availableBrands of
        None \<Rightarrow> None
      | Some result \<Rightarrow>
          (case (if trim aiImageInput \<noteq> [] then Some (trim aiImageInput)
                 else generateImageUrl enc seed
                        (or_else (case a_image_keywords result of None \<Rightarrow> [] | Some k \<Rightarrow> k)
                                 (a_brand result @ u '' car news''))) of
             None \<Rightarrow> None
           | Some finalImage \<Rightarrow>
               Some \<lparr>n_title = a_title result, n_summary = a_summary result,
                     n_brand = a_brand result, n_type = a_type result, n_date = a_date result,
                     n_url = or_else (case a_url result of None \<Rightarrow> [] | Some x \<Rightarrow> x) aiImageInput,
                     n_source = ai_source, n_image = finalImage\<rparr>))"

section \<open>Concrete inputs\<close>

text \<open>A page of 53 code units whose extracted text has 50, over the threshold of line 73.\<close>

definition page50 :: jsstring where
  "page50 = u ''<p>'' @ replicate 50 0x61"

definition env0 :: env where
  "env0 = \<lparr>token = Some (u ''tok''), page = Fetched True 200 (Some page50), list_fails = False,
            blob_fetch = Get_ok, rand_id = u ''k3j9x0aq'', today = u ''2025-01-13'',
            url_hostname = (\<lambda>_. Some (u ''a.io'')), put_fails = False\<rparr>"

definition post_url :: "jsstring \<Rightarrow> request" where
  "post_url url = \<lparr>req_method = POST, req_body = Body_url (Some url)\<rparr>"

text \<open>The item that a request for \<open>url\<close> answered under \<open>env0\<close> with random id \<open>ident\<close> builds.\<close>

definition item0 :: "jsstring \<Rightarrow> jsstring \<Rightarrow> json" where
  "item0 ident url =
     JObj [(u ''id'', JStr ident), (u ''url'', JStr url), (u ''title'', JStr untitled),
           (u ''text'', JStr (replicate 50 0x61)), (u ''scrapedAt'', JStr (u ''2025-01-13'')),
           (u ''source'', JStr (u ''a.io''))]"

text \<open>A store whose queue document is the 101st blob of the listing.\<close>

definition hidden_store :: store where
  "hidden_store =
     replicate 100 \<lparr>pathname = u ''img.png'', content = Not_json\<rparr> @
     [\<lparr>pathname = pending_path, content = Json (JArr [item0 (u ''aaaaaaaa'') (u ''http://old.io'')])\<rparr>]"

definition small_ex :: extracted where
  "small_ex = \<lparr>ex_title = u ''T'', ex_text = u ''x''\<rparr>"

definition race_item :: "jsstring \<Rightarrow> json" where
  "race_item ident =
     JObj [(u ''id'', JStr ident), (u ''url'', JStr (u ''http://a.io'')), (u ''title'', JStr (u ''T'')),
           (u ''text'', JStr (u ''x'')), (u ''scrapedAt'', JStr (u ''2025-01-13'')),
           (u ''source'', JStr (u ''a.io''))]"

definition one_item_store :: store where
  "one_item_store =
     [\<lparr>pathname = pending_path, content = Json (JArr [item0 (u ''aaaaaaaa'') (u ''http://old.io'')])\<rparr>]"

text \<open>A stand-in for \<open>encodeURIComponent\<close> that never throws.\<close>

definition enc0 :: "jsstring \<Rightarrow> jsstring option" where
  "enc0 p = Some p"

definition form0 :: news_item where
  "form0 = \<lparr>n_title = u ''Camry'', n_summary = u ''New model'', n_brand = u ''Toyota'',
             n_type = u ''launch'', n_date = u ''2025-01-13'', n_url = [], n_source = u ''manual'',
             n_image = u ''  ''\<rparr>"

text \<open>An analysis whose \<open>type\<close> is outside the enumeration.\<close>

definition rumor :: analysis where
  "rumor = \<lparr>a_title = u ''Camry'', a_summary = u ''New model'', a_brand = u ''Toyota'',
             a_type = u ''rumor'', a_date = u ''2025-01-13'', a_url = None,
             a_image_keywords = Some (u ''car'')\<rparr>"

text \<open>The generated-image URL of a prompt under \<open>enc0\<close> with seed 7.\<close>

definition url0 :: "jsstring \<Rightarrow> jsstring" where
  "url0 prompt = u ''https://image.pollinations.ai/prompt/'' @ prompt @
                u ''?width=800&height=600&nologo=true&seed=7''"

text \<open>Two damaged queue documents: \<open>{}\<close>, which is JSON but no array, and text that is
  not JSON.\<close>

definition object_store :: store where
  "object_store = [\<lparr>pathname = pending_path, content = Json (JObj [])\<rparr>]"

definition garbage_store :: store where
  "garbage_store = [\<lparr>pathname = pending_path, content = Not_json\<rparr>]"

text \<open>A page with a script block and a style block, and the two ways of seeing it.\<close>

definition script_blocks :: "block list" where
  "script_blocks =
     [\<lparr>b_before = u ''<p>a</p>'', b_opener = u ''<SCRIPT'', b_attrs = u '' src=x'',
       b_inner = u ''var x;'', b_closer = u ''</script>''\<rparr>]"

definition style_blocks :: "block list" where
  "style_blocks =
     [\<lparr>b_before = u ''<p>a</p>'', b_opener = u ''<style'', b_attrs = [],
       b_inner = u ''p{}'', b_closer = u ''</style>''\<rparr>]"

section \<open>The matcher on the expressions of the extractor\<close>

lemma ci_eq_lt [simp]: "ci_eq 0x3C c \<longleftrightarrow> c = 0x3C"
proof -
  have "c - 0x20 \<noteq> 0x3C" if "0x61 \<le> c"
  proof
    assume "c - 0x20 = 0x3C"
    then have "c = 0x3C + 0x20" by (metis diff_add_cancel)
    with that show False by simp
  qed
  then show ?thesis by (auto simp: ci_eq_def to_upper_def)
qed

lemma ci_eq_gt [simp]: "ci_eq 0x3E c \<longleftrightarrow> c = 0x3E"
proof -
  have "c - 0x20 \<noteq> 0x3E" if "0x61 \<le> c"
  proof
    assume "c - 0x20 = 0x3E"
    then have "c = 0x3E + 0x20" by (metis diff_add_cancel)
    with that show False by simp
  qed
  then show ?thesis by (auto simp: ci_eq_def to_upper_def)
qed

lemma starts_with_spelling: "list_all2 eq p s \<Longrightarrow> starts_with eq p (s @ r)"
  by (induction p s rule: list_all2_induct) auto

lemma starts_with_cut:
  assumes "\<forall>q\<in>set ps. \<not> eq q y" and "starts_with eq ps (xs @ y # ys)"
  shows "starts_with eq ps xs"
  using assms
proof (induction ps arbitrary: xs)
  case Nil
  then show ?case by simp
next
  case (Cons q qs)
  then show ?case by (cases xs) auto
qed

lemma starts_with_overlap:
  assumes "\<forall>q\<in>set ps. \<not> eq q y" and "starts_with eq (p # ps) (xs @ y # ys)" and "xs \<noteq> []"
  shows "starts_with eq (p # ps) xs"
proof -
  from assms(3) obtain x xs' where xs: "xs = x # xs'" by (cases xs) auto
  with assms(2) have "eq p x" "starts_with eq ps (xs' @ y # ys)" by auto
  with assms(1) starts_with_cut [where eq = eq and ps = ps and y = y and xs = xs' and ys = ys]
  show ?thesis by (auto simp: xs)
qed

lemma occurs_drop: "\<not> occurs eq p s \<Longrightarrow> \<not> starts_with eq p (drop i s)"
proof (induction s arbitrary: i)
  case Nil
  then show ?case by simp
next
  case (Cons c cs)
  then show ?case by (cases i) auto
qed

lemma concat_map_Nil: "(\<And>x. x \<in> set xs \<Longrightarrow> f x = []) \<Longrightarrow> concat (map f xs) = []"
  by (induction xs) auto

lemma concat_map_if: "concat (map (\<lambda>i. if Q i then [h i] else []) ns) = map h (filter Q ns)"
  by (induction ns) auto

lemma takeWhile_Any [simp]: "takeWhile (in_cset Any_char) s = s"
  by (induction s) auto

lemma star_commit:
  assumes "\<And>n. n < length (takeWhile (in_cset cs) s) \<Longrightarrow> run r (caps, drop n s) = []"
  shows "run (Seq (Star cs) r) (caps, s) = run r (caps, dropWhile (in_cset cs) s)"
proof -
  let ?k = "length (takeWhile (in_cset cs) s)"
  have "concat (map (run r) (map (\<lambda>n. (caps, drop n s)) (rev [0..<?k]))) = []"
    by (rule concat_map_Nil) (use assms in auto)
  moreover have "drop ?k s = dropWhile (in_cset cs) s"
    by (simp add: dropWhile_eq_drop)
  ultimately show ?thesis by simp
qed


lemma lazy_any_lit:
  "run (Seq (Star_lazy Any_char) (Lit_ci p)) (caps, s) =
     map (\<lambda>i. (caps, drop (i + length p) s))
       (filter (\<lambda>i. starts_with ci_eq p (drop i s)) [0..<Suc (length s)])"
proof -
  have "run (Seq (Star_lazy Any_char) (Lit_ci p)) (caps, s) =
      concat (map (\<lambda>i. if starts_with ci_eq p (drop i s) then [(caps, drop (i + length p) s)] else [])
        [0..<Suc (length s)])"
    by (simp add: o_def add.commute del: upt_Suc cong: if_cong)
  then show ?thesis by (simp only: concat_map_if)
qed

lemma lazy_any_lit_exact:
  "run (Seq (Star_lazy Any_char) (Lit p)) (caps, s) =
     map (\<lambda>i. (caps, drop (i + length p) s))
       (filter (\<lambda>i. starts_with (=) p (drop i s)) [0..<Suc (length s)])"
proof -
  have "run (Seq (Star_lazy Any_char) (Lit p)) (caps, s) =
      concat (map (\<lambda>i. if starts_with (=) p (drop i s) then [(caps, drop (i + length p) s)] else [])
        [0..<Suc (length s)])"
    by (simp add: o_def add.commute del: upt_Suc cong: if_cong)
  then show ?thesis by (simp only: concat_map_if)
qed

lemma filter_first:
  assumes "i < m" and "Q i" and "\<And>j. j < i \<Longrightarrow> \<not> Q j"
  shows "\<exists>rest. filter Q [0..<m] = i # rest"
proof -
  from assms(1) have "[0..<m] = [0..<i] @ i # [Suc i..<m]"
    by (metis less_imp_le_nat upt_add_eq_append upt_conv_Cons le0 le_add_diff_inverse)
  moreover have "filter Q [0..<i] = []"
    using assms(3) by (auto simp: filter_empty_conv)
  ultimately show ?thesis using assms(2) by simp
qed


lemma u_lt: "u ''<'' = [0x3C]" and u_gt: "u ''>'' = [0x3E]" and u_lt_slash: "u ''</'' = [0x3C, 0x2F]"
  by (simp_all add: u_def)

lemma spelling_length: "spelling p s \<Longrightarrow> length s = length p"
  by (simp add: spelling_def list_all2_lengthD)

lemma spelling_starts: "spelling p s \<Longrightarrow> starts_with ci_eq p (s @ r)"
  by (simp add: spelling_def starts_with_spelling)

lemma spelling_lt: "spelling (0x3C # p) s \<Longrightarrow> \<exists>s'. s = 0x3C # s'"
  by (cases s) (auto simp: spelling_def)

lemma gt_commit:
  "run (Seq (Star (Except 0x3E)) (Seq (Lit_ci [0x3E]) r)) (caps, s) =
     (case dropWhile (in_cset (Except 0x3E)) s of [] \<Rightarrow> [] | g # rest \<Rightarrow> run r (caps, rest))"
proof -
  have "run (Seq (Lit_ci [0x3E]) r) (caps, drop n s) = []"
    if "n < length (takeWhile (in_cset (Except 0x3E)) s)" for n
  proof -
    from that have "n < length s"
      using length_takeWhile_le [of "in_cset (Except 0x3E)" s] by simp
    then have d: "drop n s = s ! n # drop (Suc n) s"
      by (simp add: Cons_nth_drop_Suc)
    from that have "in_cset (Except 0x3E) (s ! n)"
      by (metis nth_mem set_takeWhileD takeWhile_nth)
    then show ?thesis by (simp add: d)
  qed
  then have "run (Seq (Star (Except 0x3E)) (Seq (Lit_ci [0x3E]) r)) (caps, s)
      = run (Seq (Lit_ci [0x3E]) r) (caps, dropWhile (in_cset (Except 0x3E)) s)"
    by (rule star_commit)
  also have "\<dots> = (case dropWhile (in_cset (Except 0x3E)) s of [] \<Rightarrow> [] | g # rest \<Rightarrow> run r (caps, rest))"
  proof (cases "dropWhile (in_cset (Except 0x3E)) s")
    case Nil
    show ?thesis unfolding Nil by simp
  next
    case (Cons g rest)
    then have "\<not> in_cset (Except 0x3E) g"
      by (metis hd_dropWhile list.sel(1) list.distinct(1))
    then show ?thesis unfolding Cons by simp
  qed
  finally show ?thesis .
qed

lemma dropWhile_attrs:
  "0x3E \<notin> set attrs \<Longrightarrow> dropWhile (in_cset (Except 0x3E)) (attrs @ 0x3E # rest) = 0x3E # rest"
  by (induction attrs) auto

lemma replace_skip:
  assumes "\<And>i. i < length pre \<Longrightarrow> match_at re (drop i pre @ rest) = None"
  shows "replace_all re rep (pre @ rest) = pre @ replace_all re rep rest"
  using assms
proof (induction pre)
  case Nil
  then show ?case by simp
next
  case (Cons c cs)
  from Cons.prems [of 0] have "match_at re ((c # cs) @ rest) = None" by simp
  moreover have "replace_all re rep (cs @ rest) = cs @ replace_all re rep rest"
  proof (rule Cons.IH)
    fix i assume "i < length cs"
    with Cons.prems [of "Suc i"] show "match_at re (drop i cs @ rest) = None" by simp
  qed
  ultimately show ?case by simp
qed

lemma replace_match:
  assumes "match_at re (m @ rest) = Some (caps, length m)" and "m \<noteq> []"
  shows "replace_all re rep (m @ rest) = rep @ replace_all re rep rest"
proof -
  from assms(2) obtain c cs where m: "m = c # cs" by (cases m) auto
  with assms(1) show ?thesis by simp
qed



text \<open>No opener starts inside \<open>pre\<close> when \<open>pre\<close> has none and what follows starts with \<open><\<close>.\<close>

lemma no_opener_before:
  assumes "\<not> occurs ci_eq (0x3C # p) pre" and "\<forall>q\<in>set p. \<not> ci_eq q 0x3C" and "i < length pre"
  shows "\<not> starts_with ci_eq (0x3C # p) (drop i pre @ 0x3C # rest)"
proof
  assume "starts_with ci_eq (0x3C # p) (drop i pre @ 0x3C # rest)"
  moreover from assms(3) have "drop i pre \<noteq> []" by simp
  ultimately have "starts_with ci_eq (0x3C # p) (drop i pre)"
    using assms(2) starts_with_overlap [where eq = ci_eq and ps = p and y = "0x3C"] by blast
  with occurs_drop [OF assms(1)] show False by blast
qed

lemma no_opener_at_all:
  assumes "\<not> occurs ci_eq (0x3C # p) s"
  shows "\<not> starts_with ci_eq (0x3C # p) (drop i s @ [])"
  using occurs_drop [OF assms] by simp


lemma block_re_alt:
  "block_re tag = Seq (Lit_ci (0x3C # u tag)) (Seq (Star (Except 0x3E)) (Seq (Lit_ci [0x3E])
     (Seq (Star_lazy Any_char) (Lit_ci (0x3C # 0x2F # u tag @ [0x3E])))))"
  by (simp add: block_re_def u_lt u_gt u_lt_slash)

lemma slash_not_lt: "\<not> ci_eq 0x2F 0x3C"
  by (simp add: ci_eq_def to_upper_def)

lemma seq_lit_ci:
  "run (Seq (Lit_ci p) r) (caps, s) =
     (if starts_with ci_eq p s then run r (caps, drop (length p) s) else [])"
  by simp

lemma block_no_match:
  "\<not> starts_with ci_eq (0x3C # u tag) s \<Longrightarrow> match_at (block_re tag) s = None"
  by (simp add: match_at_def block_re_alt)

lemma block_match:
  assumes op: "spelling (0x3C # u tag) op" and attrs: "0x3E \<notin> set attrs"
    and cl: "spelling (0x3C # 0x2F # u tag @ [0x3E]) cl"
    and body: "\<not> occurs ci_eq (0x3C # 0x2F # u tag @ [0x3E]) body"
    and plain: "\<forall>q\<in>set (u tag). \<not> ci_eq q 0x3C"
  shows "match_at (block_re tag) (op @ attrs @ 0x3E # body @ cl @ post)
           = Some ([], length (op @ attrs @ 0x3E # body @ cl))"
proof -
  let ?C = "0x3C # 0x2F # u tag @ [0x3E]"
  let ?R2 = "body @ cl @ post"
  let ?Q = "\<lambda>i. starts_with ci_eq ?C (drop i ?R2)"
  from cl obtain cl' where cl': "cl = 0x3C # cl'" using spelling_lt by blast
  have 1: "run (block_re tag) ([], op @ attrs @ 0x3E # ?R2)
      = run (Seq (Star_lazy Any_char) (Lit_ci ?C)) ([], ?R2)"
    using spelling_starts [OF op] spelling_length [OF op] attrs
    by (simp add: block_re_alt seq_lit_ci gt_commit dropWhile_attrs del: run.simps)
  have q: "?Q (length body)"
    using spelling_starts [OF cl, of post] by simp
  have nq: "\<not> ?Q j" if "j < length body" for j
  proof -
    have "\<forall>q\<in>set (0x2F # u tag @ [0x3E]). \<not> ci_eq q 0x3C"
      using plain slash_not_lt by simp
    from no_opener_before [OF body this that, of "cl' @ post"]
    show ?thesis using that by (simp add: cl')
  qed
  have "length body < Suc (length ?R2)" by simp
  from filter_first [of "length body" "Suc (length ?R2)" ?Q, OF this q nq]
  obtain rest where "filter ?Q [0..<Suc (length ?R2)] = length body # rest" by blast
  then have "\<exists>more. run (Seq (Star_lazy Any_char) (Lit_ci ?C)) ([], ?R2) = ([], post) # more"
    using spelling_length [OF cl] by (simp only: lazy_any_lit) simp
  with 1 show ?thesis
    by (auto simp: match_at_def)
qed

lemma strip_block_first:
  assumes pre: "\<not> occurs ci_eq (0x3C # u tag) pre"
    and op: "spelling (0x3C # u tag) op" and attrs: "0x3E \<notin> set attrs"
    and cl: "spelling (0x3C # 0x2F # u tag @ [0x3E]) cl"
    and body: "\<not> occurs ci_eq (0x3C # 0x2F # u tag @ [0x3E]) body"
    and plain: "\<forall>q\<in>set (u tag). \<not> ci_eq q 0x3C"
  shows "strip_block tag (pre @ (op @ attrs @ 0x3E # body @ cl) @ post) = pre @ strip_block tag post"
proof -
  let ?B = "op @ attrs @ 0x3E # body @ cl"
  from op obtain op' where op': "op = 0x3C # op'" using spelling_lt by blast
  have "match_at (block_re tag) (drop i pre @ ?B @ post) = None" if "i < length pre" for i
    using no_opener_before [OF pre plain that, of "op' @ attrs @ 0x3E # body @ cl @ post"]
    by (intro block_no_match) (simp add: op')
  then have "replace_all (block_re tag) [] (pre @ ?B @ post)
      = pre @ replace_all (block_re tag) [] (?B @ post)"
    by (rule replace_skip)
  moreover have "replace_all (block_re tag) [] (?B @ post) = [] @ replace_all (block_re tag) [] post"
    using block_match [OF op attrs cl body plain, of post]
    by (intro replace_match) (simp_all add: op')
  ultimately show ?thesis by (simp add: strip_block_def)
qed

lemma strip_block_none:
  assumes "\<not> occurs ci_eq (0x3C # u tag) s"
  shows "strip_block tag s = s"
proof -
  have "match_at (block_re tag) (drop i s @ []) = None" for i
    using occurs_drop [OF assms, of i] by (intro block_no_match) simp
  then have "replace_all (block_re tag) [] (s @ []) = s @ replace_all (block_re tag) [] []"
    by (intro replace_skip)
  moreover have "match_at (block_re tag) [] = None"
    by (intro block_no_match) simp
  ultimately show ?thesis by (simp add: strip_block_def)
qed

subsection \<open>Documents of blocks\<close>

lemma is_block_alt:
  "is_block tag b \<longleftrightarrow>
     \<not> occurs ci_eq (0x3C # u tag) (b_before b) \<and>
     spelling (0x3C # u tag) (b_opener b) \<and>
     0x3E \<notin> set (b_attrs b) \<and>
     \<not> occurs ci_eq (0x3C # 0x2F # u tag @ [0x3E]) (b_inner b) \<and>
     spelling (0x3C # 0x2F # u tag @ [0x3E]) (b_closer b)"
  by (simp add: is_block_def u_lt u_gt u_lt_slash)

lemma strip_block_blocks:
  assumes plain: "\<forall>q\<in>set (u tag). \<not> ci_eq q 0x3C" and "blocks_of tag bs rest"
  shows "strip_block tag (render bs rest) = outside bs rest"
  using assms(2)
proof (induction bs)
  case Nil
  then show ?case
    by (simp add: blocks_of_def render_def outside_def u_lt strip_block_none)
next
  case (Cons b bs)
  then have b: "is_block tag b" and rest: "blocks_of tag bs rest"
    by (simp_all add: blocks_of_def)
  from b have "strip_block tag
      (b_before b @ (b_opener b @ b_attrs b @ 0x3E # b_inner b @ b_closer b) @ render bs rest)
      = b_before b @ strip_block tag (render bs rest)"
    by (intro strip_block_first plain) (simp_all add: is_block_alt)
  with Cons.IH [OF rest] show ?case
    by (simp add: render_def outside_def render_block_def)
qed

lemma strip_blocks_split:
  "strip_blocks html = later_passes (strip_block ''style'' (strip_block ''script'' html))"
  by (simp add: strip_blocks_def later_passes_def)

lemma plain_script: "\<forall>q\<in>set (u ''script''). \<not> ci_eq q 0x3C"
  by (simp add: u_def ci_eq_def to_upper_def)

lemma plain_style: "\<forall>q\<in>set (u ''style''). \<not> ci_eq q 0x3C"
  by (simp add: u_def ci_eq_def to_upper_def)


subsection \<open>The title expression\<close>






subsection \<open>The title is always found or replaced\<close>

lemma run_caps:
  "(caps', s') \<in> set (run re (caps, s)) \<Longrightarrow> length caps' = length caps + groups re"
proof (induction re arbitrary: caps s caps' s')
  case (Seq a b)
  from Seq.prems obtain st where st: "st \<in> set (run a (caps, s))" and "(caps', s') \<in> set (run b st)"
    by auto
  then show ?case
    using Seq.IH(1) [of "fst st" "snd st" caps s] Seq.IH(2) [of caps' s' "fst st" "snd st"]
    by simp
next
  case (Group a)
  then show ?case by (auto split: if_splits)
qed (auto split: if_splits)

lemma match_at_caps: "match_at re s = Some (caps, n) \<Longrightarrow> length caps = groups re"
proof -
  assume "match_at re s = Some (caps, n)"
  then obtain s' more where "run re ([], s) = (caps, s') # more"
    by (auto simp: match_at_def split: list.splits)
  then have "(caps, s') \<in> set (run re ([], s))" by simp
  from run_caps [OF this] show ?thesis by simp
qed

lemma js_match_caps: "js_match re s = Some caps \<Longrightarrow> length caps = groups re"
proof (induction s)
  case Nil
  then show ?case by (auto dest: match_at_caps)
next
  case (Cons c cs)
  then show ?case by (auto dest: match_at_caps split: option.splits)
qed

lemma extract_title_total: "extract_title html \<noteq> None"
proof (cases "js_match title_re html")
  case None
  then show ?thesis by (simp add: extract_title_def)
next
  case (Some caps)
  from js_match_caps [OF this] have "length caps = 1"
    by (simp add: title_re_def)
  then obtain g where "caps = [g]" by (cases caps) auto
  with Some show ?thesis by (simp add: extract_title_def)
qed

lemma ex_text_extractContent: "ex_text (extractContent html) = clean_text (strip_blocks html)"
  using extract_title_total [of html] by (auto simp: extractContent_def)

lemma ex_title_extractContent: "extract_title html = Some t \<Longrightarrow> ex_title (extractContent html) = t"
  by (simp add: extractContent_def)

subsection \<open>Evaluation at concrete pages\<close>

lemma script_blocks_ok: "blocks_of ''script'' script_blocks (u ''<style>p{}</style>b'')"
  by code_simp

lemma style_blocks_ok: "blocks_of ''style'' style_blocks (u ''b'')"
  by code_simp

lemma blocks_agree: "outside script_blocks (u ''<style>p{}</style>b'') = render style_blocks (u ''b'')"
  by code_simp

lemma render_script_blocks:
  "render script_blocks (u ''<style>p{}</style>b'')
     = u ''<p>a</p><SCRIPT src=x>var x;</script><style>p{}</style>b''"
  by code_simp

lemma clean_outside: "clean_text (later_passes (outside style_blocks (u ''b''))) = [0x61, 0x0A, 0x62]"
  by code_simp

lemma outside_plain:
  "\<not> occurs ci_eq (u ''<script'') (outside style_blocks (u ''b'')) \<and>
   \<not> occurs ci_eq (u ''<style'') (outside style_blocks (u ''b''))"
  by code_simp



section \<open>The extractor\<close>




text \<open>
  C7 (as amended). An input that is a sequence of script blocks between texts without the
  opener \<open><script\<close>, and whose text outside these blocks is a sequence of style blocks
  between texts without the opener \<open><style\<close>: the first two passes delete exactly the
  blocks, and the text returned is computed from what lies outside them. When no opener is
  left there, it is the text returned for the input with the blocks deleted.
\<close>

theorem script_and_style_blocks_removed:
  assumes "blocks_of ''script'' scripts rest1"
    and "outside scripts rest1 = render styles rest2"
    and "blocks_of ''style'' styles rest2"
  shows "strip_block ''style'' (strip_block ''script'' (render scripts rest1)) = outside styles rest2 \<and>
         ex_text (extractContent (render scripts rest1))
           = clean_text (later_passes (outside styles rest2)) \<and>
         (\<not> occurs ci_eq (u ''<script'') (outside styles rest2) \<and>
          \<not> occurs ci_eq (u ''<style'') (outside styles rest2) \<longrightarrow>
            ex_text (extractContent (render scripts rest1))
              = ex_text (extractContent (outside styles rest2)))"
proof -
  have "strip_block ''script'' (render scripts rest1) = render styles rest2"
    using strip_block_blocks [OF plain_script assms(1)] assms(2) by simp
  then have 1: "strip_block ''style'' (strip_block ''script'' (render scripts rest1))
      = outside styles rest2"
    using strip_block_blocks [OF plain_style assms(3)] by simp
  then have 2: "ex_text (extractContent (render scripts rest1))
      = clean_text (later_passes (outside styles rest2))"
    by (simp add: ex_text_extractContent strip_blocks_split)
  have "strip_block ''style'' (strip_block ''script'' (outside styles rest2)) = outside styles rest2"
    if "\<not> occurs ci_eq (u ''<script'') (outside styles rest2)"
      and "\<not> occurs ci_eq (u ''<style'') (outside styles rest2)"
    using that by (simp add: u_def strip_block_none [of "''script''"] strip_block_none [of "''style''"])
  then have "ex_text (extractContent (outside styles rest2))
      = clean_text (later_passes (outside styles rest2))"
    if "\<not> occurs ci_eq (u ''<script'') (outside styles rest2)"
      and "\<not> occurs ci_eq (u ''<style'') (outside styles rest2)"
    using that by (simp add: ex_text_extractContent strip_blocks_split)
  with 1 2 show ?thesis by simp
qed

theorem script_and_style_blocks_removed_witness:
  "ex_text (extractContent (u ''<p>a</p><SCRIPT src=x>var x;</script><style>p{}</style>b''))
     = [0x61, 0x0A, 0x62] \<and>
   ex_text (extractContent (u ''<p>a</p><SCRIPT src=x>var x;</script><style>p{}</style>b''))
     = ex_text (extractContent (outside style_blocks (u ''b'')))"
proof -
  note removed = script_and_style_blocks_removed [OF script_blocks_ok blocks_agree style_blocks_ok]
  from removed have "ex_text (extractContent (render script_blocks (u ''<style>p{}</style>b'')))
      = [0x61, 0x0A, 0x62]"
    by (simp add: clean_outside)
  moreover from removed outside_plain
  have "ex_text (extractContent (render script_blocks (u ''<style>p{}</style>b'')))
      = ex_text (extractContent (outside style_blocks (u ''b'')))"
    by blast
  ultimately show ?thesis
    by (simp only: render_script_blocks)
qed

text \<open>
  C7 as stated fails on a style block whose content holds a script opener that is closed
  after the style block:
  the script pass removes the closer of the style block with its match, the style pass then
  finds nothing, and the content of the style block is the text returned. Changing nothing
  but that content changes the text.
\<close>

theorem style_content_leaks_counterexample:
  "ex_text (extractContent (u ''<style>a<script>b</style>c</script>'')) = u ''a'' \<and>
   ex_text (extractContent (u ''<style>z<script>b</style>c</script>'')) = u ''z''"
  by code_simp


section \<open>Basic facts\<close>

lemma u_eq_Nil [simp]: "u s = [] \<longleftrightarrow> s = []"
  by (simp add: u_def)

lemma find_app:
  "find P (xs @ ys) = (case find P xs of None \<Rightarrow> find P ys | Some x \<Rightarrow> Some x)"
  by (induction xs) auto

lemma find_replicate_None: "\<not> P x \<Longrightarrow> find P (replicate n x) = None"
  by (induction n) auto

subsection \<open>The store\<close>

lemma find_put_blob:
  "map_option content (find (\<lambda>b. pathname b = p) (put_blob p body s)) = Some body"
proof (cases "p \<in> pathname ` set s")
  case True
  then have "map_option content
      (find (\<lambda>b. pathname b = p) (map (\<lambda>b. if pathname b = p then b\<lparr>content := body\<rparr> else b) s))
      = Some body"
    by (induction s) auto
  with True show ?thesis by (simp add: put_blob_def)
next
  case False
  then have "find (\<lambda>b. pathname b = p) s = None"
    by (auto simp: find_None_iff)
  with False show ?thesis by (simp add: put_blob_def find_app)
qed

lemma stored_queue_put: "stored_queue (put_blob pending_path body s) = Some body"
  by (simp add: stored_queue_def find_put_blob)

lemma length_put_blob: "length (put_blob p body s) \<le> Suc (length s)"
  by (simp add: put_blob_def)

subsection \<open>What a successful answer tells\<close>

lemma ingest_success:
  assumes "out_reply (ingest url e s) = success_body item"
  shows "\<exists>ex old. fetch_and_extract e = Inr ex \<and> new_item e url ex = Inr item \<and>
           js_iterate (read_pending e s) = Some old \<and> \<not> put_fails e \<and>
           out_store (ingest url e s) = put_blob pending_path (Json (JArr (item # old))) s \<and>
           out_status (ingest url e s) = 200"
  using assms
  by (auto simp: ingest_def failed_def append_pending_def success_body_def
      split: sum.splits option.splits if_splits prod.splits)

lemma handler_success:
  assumes "out_reply (handler req e s) = success_body item"
  shows "\<exists>url. req_body req = Body_url (Some url) \<and> url \<noteq> [] \<and> req_method req = POST \<and>
           handler req e s = ingest url e s"
  using assms
  by (auto simp: handler_def answer_def success_body_def
      split: if_splits req_body.splits option.splits)

lemma new_item_url: "new_item e url ex = Inr item \<Longrightarrow> item_url item = Some (JStr url)"
  by (auto simp: new_item_def u_def split: option.splits)

lemma new_item_id: "new_item e url ex = Inr item \<Longrightarrow> item_id item = Some (JStr (rand_id e))"
  by (auto simp: new_item_def u_def split: option.splits)

subsection \<open>The queue read\<close>

lemma read_pending_hidden:
  assumes "pending_path \<notin> pathname ` set (list_blobs s)"
  shows "read_pending e s = JArr []"
proof -
  from assms have "find (\<lambda>b. pathname b = pending_path) (list_blobs s) = None"
    by (force simp: find_None_iff)
  then show ?thesis by (simp add: read_pending_def)
qed

lemma read_pending_empty_doc:
  assumes "stored_queue s = None \<or> stored_queue s = Some (Json (JArr []))"
  shows "read_pending e s = JArr []"
proof (cases "find (\<lambda>b. pathname b = pending_path) (list_blobs s)")
  case None
  then show ?thesis by (simp add: read_pending_def)
next
  case (Some b)
  then have "find (\<lambda>b. pathname b = pending_path) (take 100 s @ drop 100 s) = Some b"
    by (simp only: find_app list_blobs_def) simp
  then have "stored_queue s = Some (content b)"
    by (simp add: stored_queue_def)
  with assms have "content b = Json (JArr [])" by auto
  with Some show ?thesis
    by (simp add: read_pending_def split: blob_get.splits)
qed

lemma read_pending_visible:
  assumes "length s \<le> 100" and "\<not> list_fails e" and "blob_fetch e = Get_ok"
    and "stored_queue s = Some (Json v)"
  shows "read_pending e s = v"
  using assms
  by (auto simp: read_pending_def list_blobs_def stored_queue_def split: option.splits)

text \<open>The read fails open when the document is not listed, the listing or the fetch fails,
  or the body is not JSON.\<close>

lemma read_fails_open:
  assumes "pending_path \<notin> pathname ` set (list_blobs s) \<or> list_fails e \<or> blob_fetch e \<noteq> Get_ok \<or>
           (\<forall>b. find (\<lambda>b. pathname b = pending_path) (list_blobs s) = Some b \<longrightarrow> content b = Not_json)"
  shows "read_pending e s = JArr []"
proof (cases "find (\<lambda>b. pathname b = pending_path) (list_blobs s)")
  case None
  then show ?thesis by (simp add: read_pending_def)
next
  case (Some b)
  then have "pending_path \<in> pathname ` set (list_blobs s)"
    by (force simp: find_Some_iff in_set_conv_nth)
  with assms Some show ?thesis
    by (auto simp: read_pending_def split: blob_get.splits blob_body.splits)
qed

subsection \<open>Evaluation at the concrete inputs\<close>

lemma extract_page50:
  "extractContent page50 = \<lparr>ex_title = untitled, ex_text = replicate 50 0x61\<rparr>"
  unfolding page50_def by code_simp

lemma extract_short: "length (ex_text (extractContent (u ''<p>hi</p>''))) < 50"
  by code_simp

lemma handler_env0:
  assumes "url \<noteq> []" and "js_iterate (read_pending (env0\<lparr>rand_id := ident\<rparr>) s) = Some old"
  shows "out_reply (handler (post_url url) (env0\<lparr>rand_id := ident\<rparr>) s) = success_body (item0 ident url)"
    and "out_store (handler (post_url url) (env0\<lparr>rand_id := ident\<rparr>) s)
           = put_blob pending_path (Json (JArr (item0 ident url # old))) s"
  using assms
  by (simp_all add: handler_def post_url_def env0_def ingest_def fetch_and_extract_def
      extract_page50 append_pending_def new_item_def item0_def success_body_def)

lemma handler_env0_list_fails:
  assumes "url \<noteq> []"
  shows "out_reply (handler (post_url url) (env0\<lparr>rand_id := ident, list_fails := True\<rparr>) s)
           = success_body (item0 ident url)"
    and "out_store (handler (post_url url) (env0\<lparr>rand_id := ident, list_fails := True\<rparr>) s)
           = put_blob pending_path (Json (JArr [item0 ident url])) s"
  using assms
  by (simp_all add: handler_def post_url_def env0_def ingest_def fetch_and_extract_def
      extract_page50 append_pending_def new_item_def item0_def success_body_def read_pending_def)

lemma img_not_pending: "u ''img.png'' \<noteq> pending_path"
  by (simp add: u_def pending_path_def)

lemma ab_differ: "u ''aaaaaaaa'' \<noteq> u ''bbbbbbbb''"
  by (simp add: u_def)

lemma item_id_item0: "item_id (item0 ident url) = Some (JStr ident)"
  by (simp add: item0_def)

lemma read_one_item_store:
  "read_pending (env0\<lparr>rand_id := ident\<rparr>) one_item_store
     = JArr [item0 (u ''aaaaaaaa'') (u ''http://old.io'')]"
  by (simp add: read_pending_def list_blobs_def env0_def one_item_store_def)

lemma generated_nonempty: "generateImageUrl enc seed prompt = Some x \<Longrightarrow> x \<noteq> []"
  by (auto simp: generateImageUrl_def split: option.splits)

lemma trim_blank: "trim (u ''  '') = []"
  by (simp add: trim_def u_def is_space_def)

lemma trim_empty: "trim [] = []"
  by (simp add: trim_def)

lemma gen0: "generateImageUrl enc0 7 prompt = Some (url0 prompt)"
  by (simp add: generateImageUrl_def enc0_def url0_def u_def)

lemma trim_text: "trim (u ''text'') \<noteq> []"
  by (simp add: trim_def u_def is_space_def)

lemma analyze_rumor:
  "handleAiAnalyze enc0 7 (\<lambda>t b. Some rumor) [] (u ''text'') []
     = Some \<lparr>n_title = u ''Camry'', n_summary = u ''New model'', n_brand = u ''Toyota'',
             n_type = u ''rumor'', n_date = u ''2025-01-13'', n_url = [], n_source = ai_source,
             n_image = url0 (u ''car'')\<rparr>"
  using trim_text by (simp add: handleAiAnalyze_def trim_empty rumor_def gen0 or_else_def)

section \<open>The pending queue\<close>

text \<open>
  C1. Two appends that both read the queue \<open>L\<close> before either writes: after both writes the
  stored queue document is the second writer's item in front of \<open>L\<close>, and nothing else.
  The first writer's item, when it is a new one (different from the second writer's and
  not already in \<open>L\<close>), is not in the stored queue: the last overwrite wins.
\<close>

theorem race_loses_first_item:
  assumes "read_pending e1 s = JArr L" and "read_pending e2 s = JArr L"
    and "racing_appends e1 url1 ex1 e2 url2 ex2 s = Some (item1, item2, s2)"
  shows "stored_queue s2 = Some (Json (JArr (item2 # L))) \<and>
         (item1 \<noteq> item2 \<and> item1 \<notin> set L \<longrightarrow> item1 \<notin> set (queue_items s2))"
proof -
  from assms have "s2 = put_blob pending_path (Json (JArr (item2 # L)))
      (put_blob pending_path (Json (JArr (item1 # L))) s)"
    by (auto simp: racing_appends_def append_pending_def Let_def
        split: sum.splits option.splits if_splits prod.splits)
  then have "stored_queue s2 = Some (Json (JArr (item2 # L)))"
    by (simp add: stored_queue_put)
  then show ?thesis by (simp add: queue_items_def)
qed

theorem race_loses_first_item_witness:
  "stored_queue (put_blob pending_path (Json (JArr [race_item (u ''bbbbbbbb'')]))
      (put_blob pending_path (Json (JArr [race_item (u ''aaaaaaaa'')])) []))
     = Some (Json (JArr [race_item (u ''bbbbbbbb'')])) \<and>
   race_item (u ''aaaaaaaa'') \<notin> set (queue_items (put_blob pending_path (Json (JArr [race_item (u ''bbbbbbbb'')]))
      (put_blob pending_path (Json (JArr [race_item (u ''aaaaaaaa'')])) [])))"
proof -
  let ?e1 = "env0\<lparr>rand_id := u ''aaaaaaaa''\<rparr>" and ?e2 = "env0\<lparr>rand_id := u ''bbbbbbbb''\<rparr>"
  have 1: "read_pending ?e1 [] = JArr []" and 2: "read_pending ?e2 [] = JArr []"
    by (simp_all add: read_pending_def list_blobs_def env0_def)
  have 3: "racing_appends ?e1 (u ''http://a.io'') small_ex ?e2 (u ''http://a.io'') small_ex []
      = Some (race_item (u ''aaaaaaaa''), race_item (u ''bbbbbbbb''),
          put_blob pending_path (Json (JArr [race_item (u ''bbbbbbbb'')]))
            (put_blob pending_path (Json (JArr [race_item (u ''aaaaaaaa'')])) []))"
    unfolding racing_appends_def 1 2 Let_def
    by (simp add: append_pending_def new_item_def env0_def small_ex_def race_item_def)
  have 4: "race_item (u ''aaaaaaaa'') \<noteq> race_item (u ''bbbbbbbb'')"
    using ab_differ by (simp add: race_item_def)
  show ?thesis
    using race_loses_first_item [OF 1 2 3] 4 by simp
qed

text \<open>
  C2 (as amended). From an empty queue document (absent, or holding \<open>[]\<close>), a successful
  ingestion of URL A, answered with item A, followed by a successful ingestion of URL B,
  answered with item B, leaves the stored queue \<open>[B, A]\<close>, provided the second request's
  read reaches the document: the listing and the fetch of the blob answer, and the store
  has fewer than 100 blobs, so that the document is on the first page of the listing. Item
  A carries URL A and item B carries URL B. A successful append puts its item in front of
  the list its read obtained, and a read that fails open obtains the empty list.
\<close>

theorem two_sequential_ingestions:
  assumes empty: "stored_queue s = None \<or> stored_queue s = Some (Json (JArr []))"
    and small: "length s < 100"
    and urls: "req_body reqA = Body_url (Some urlA)" "req_body reqB = Body_url (Some urlB)"
    and first: "out_reply (handler reqA eA s) = success_body itemA"
    and second: "out_reply (handler reqB eB (out_store (handler reqA eA s))) = success_body itemB"
    and reads: "\<not> list_fails eB" "blob_fetch eB = Get_ok"
  shows "stored_queue (out_store (handler reqB eB (out_store (handler reqA eA s))))
           = Some (Json (JArr [itemB, itemA])) \<and>
         item_url itemA = Some (JStr urlA) \<and> item_url itemB = Some (JStr urlB)"
proof -
  define s1 where "s1 = out_store (handler reqA eA s)"
  from handler_success [OF first] urls(1) have hA: "handler reqA eA s = ingest urlA eA s"
    by auto
  with first have "out_reply (ingest urlA eA s) = success_body itemA" by simp
  from ingest_success [OF this] read_pending_empty_doc [OF empty, of eA] hA
  have s1: "s1 = put_blob pending_path (Json (JArr [itemA])) s"
    and uA: "item_url itemA = Some (JStr urlA)"
    by (auto simp: s1_def new_item_url)
  then have q1: "stored_queue s1 = Some (Json (JArr [itemA]))"
    by (simp add: stored_queue_put)
  have "length s1 \<le> 100"
    using small length_put_blob [of pending_path "Json (JArr [itemA])" s] by (simp add: s1)
  from read_pending_visible [OF this reads q1]
  have r: "read_pending eB s1 = JArr [itemA]" .
  from second have second': "out_reply (handler reqB eB s1) = success_body itemB"
    by (simp add: s1_def)
  from handler_success [OF second'] urls(2) have hB: "handler reqB eB s1 = ingest urlB eB s1"
    by auto
  with second' have "out_reply (ingest urlB eB s1) = success_body itemB" by simp
  from ingest_success [OF this] r hB
  have "stored_queue (out_store (handler reqB eB s1)) = Some (Json (JArr [itemB, itemA]))"
    and "item_url itemB = Some (JStr urlB)"
    by (auto simp: stored_queue_put new_item_url)
  with uA show ?thesis by (simp add: s1_def)
qed

theorem two_sequential_ingestions_witness:
  "stored_queue (out_store (handler (post_url (u ''http://b.io'')) (env0\<lparr>rand_id := u ''bbbbbbbb''\<rparr>)
      (out_store (handler (post_url (u ''http://a.io'')) (env0\<lparr>rand_id := u ''aaaaaaaa''\<rparr>) []))))
    = Some (Json (JArr [item0 (u ''bbbbbbbb'') (u ''http://b.io''),
                        item0 (u ''aaaaaaaa'') (u ''http://a.io'')])) \<and>
   item_url (item0 (u ''aaaaaaaa'') (u ''http://a.io'')) = Some (JStr (u ''http://a.io''))"
proof -
  let ?eA = "env0\<lparr>rand_id := u ''aaaaaaaa''\<rparr>" and ?eB = "env0\<lparr>rand_id := u ''bbbbbbbb''\<rparr>"
  let ?s1 = "out_store (handler (post_url (u ''http://a.io'')) ?eA [])"
  have rA: "js_iterate (read_pending ?eA []) = Some []"
    by (simp add: read_pending_def list_blobs_def env0_def)
  have 1: "stored_queue [] = None \<or> stored_queue [] = Some (Json (JArr []))"
    by (simp add: stored_queue_def)
  have 2: "length ([] :: store) < 100" by simp
  have u: "req_body (post_url (u ''http://a.io'')) = Body_url (Some (u ''http://a.io''))"
    "req_body (post_url (u ''http://b.io'')) = Body_url (Some (u ''http://b.io''))"
    by (simp_all add: post_url_def)
  have 3: "out_reply (handler (post_url (u ''http://a.io'')) ?eA [])
      = success_body (item0 (u ''aaaaaaaa'') (u ''http://a.io''))"
    using handler_env0(1) [OF _ rA] by simp
  have s1: "?s1 = [\<lparr>pathname = pending_path,
      content = Json (JArr [item0 (u ''aaaaaaaa'') (u ''http://a.io'')])\<rparr>]"
    using handler_env0(2) [OF _ rA, of "u ''http://a.io''"] by (simp add: put_blob_def)
  have rB: "js_iterate (read_pending ?eB ?s1) = Some [item0 (u ''aaaaaaaa'') (u ''http://a.io'')]"
    unfolding s1 by (simp add: read_pending_def list_blobs_def env0_def)
  have 4: "out_reply (handler (post_url (u ''http://b.io'')) ?eB ?s1)
      = success_body (item0 (u ''bbbbbbbb'') (u ''http://b.io''))"
    using handler_env0(1) [OF _ rB] by simp
  have 5: "\<not> list_fails ?eB" "blob_fetch ?eB = Get_ok"
    by (simp_all add: env0_def)
  show ?thesis
    using two_sequential_ingestions [OF 1 2 u 3 4 5] by simp
qed

text \<open>
  C2 as stated fails: from an empty store, a request for URL A succeeds, then a request
  for URL B during which the listing of the blob store fails. The read of the second
  request fails open, the request is answered with success all the same, and the stored
  queue is \<open>[B]\<close>, not \<open>[B, A]\<close>.
\<close>

theorem failed_listing_counterexample:
  "stored_queue [] = None \<and>
   out_reply (handler (post_url (u ''http://a.io'')) (env0\<lparr>rand_id := u ''aaaaaaaa''\<rparr>) [])
     = success_body (item0 (u ''aaaaaaaa'') (u ''http://a.io'')) \<and>
   stored_queue (out_store (handler (post_url (u ''http://a.io'')) (env0\<lparr>rand_id := u ''aaaaaaaa''\<rparr>) []))
     = Some (Json (JArr [item0 (u ''aaaaaaaa'') (u ''http://a.io'')])) \<and>
   out_reply (handler (post_url (u ''http://b.io''))
       (env0\<lparr>rand_id := u ''bbbbbbbb'', list_fails := True\<rparr>)
       (out_store (handler (post_url (u ''http://a.io'')) (env0\<lparr>rand_id := u ''aaaaaaaa''\<rparr>) [])))
     = success_body (item0 (u ''bbbbbbbb'') (u ''http://b.io'')) \<and>
   stored_queue (out_store (handler (post_url (u ''http://b.io''))
       (env0\<lparr>rand_id := u ''bbbbbbbb'', list_fails := True\<rparr>)
       (out_store (handler (post_url (u ''http://a.io'')) (env0\<lparr>rand_id := u ''aaaaaaaa''\<rparr>) []))))
     = Some (Json (JArr [item0 (u ''bbbbbbbb'') (u ''http://b.io'')])) \<and>
   [item0 (u ''bbbbbbbb'') (u ''http://b.io'')]
     \<noteq> [item0 (u ''bbbbbbbb'') (u ''http://b.io''), item0 (u ''aaaaaaaa'') (u ''http://a.io'')]"
proof -
  have rA: "js_iterate (read_pending (env0\<lparr>rand_id := u ''aaaaaaaa''\<rparr>) []) = Some []"
    by (simp add: read_pending_def list_blobs_def env0_def)
  have "stored_queue [] = None"
    by (simp add: stored_queue_def)
  moreover have "out_reply (handler (post_url (u ''http://a.io'')) (env0\<lparr>rand_id := u ''aaaaaaaa''\<rparr>) [])
      = success_body (item0 (u ''aaaaaaaa'') (u ''http://a.io''))"
    using handler_env0(1) [OF _ rA] by simp
  moreover have "stored_queue (out_store (handler (post_url (u ''http://a.io''))
      (env0\<lparr>rand_id := u ''aaaaaaaa''\<rparr>) []))
      = Some (Json (JArr [item0 (u ''aaaaaaaa'') (u ''http://a.io'')]))"
    using handler_env0(2) [OF _ rA, of "u ''http://a.io''"] by (simp add: stored_queue_put)
  moreover have "out_reply (handler (post_url (u ''http://b.io''))
      (env0\<lparr>rand_id := u ''bbbbbbbb'', list_fails := True\<rparr>) s)
      = success_body (item0 (u ''bbbbbbbb'') (u ''http://b.io''))" for s
    by (rule handler_env0_list_fails(1)) simp
  moreover have "stored_queue (out_store (handler (post_url (u ''http://b.io''))
      (env0\<lparr>rand_id := u ''bbbbbbbb'', list_fails := True\<rparr>) s))
      = Some (Json (JArr [item0 (u ''bbbbbbbb'') (u ''http://b.io'')]))" for s
    using handler_env0_list_fails(2) [of "u ''http://b.io''" "u ''bbbbbbbb''" s]
    by (simp add: stored_queue_put)
  ultimately show ?thesis by simp
qed

text \<open>
  C3. A page that was fetched with success but whose extracted text has fewer than 50 code
  units: the endpoint answers 500 with the message of line 73 (no usable content), the store
  is left as it was, and no operation on the store was performed, neither the listing, nor
  the fetch of the queue document, nor the put.
\<close>

theorem short_text_no_write:
  assumes "req_method req = POST" and "token e \<noteq> None" and "token e \<noteq> Some []"
    and "req_body req = Body_url (Some url)" and "url \<noteq> []"
    and "page e = Fetched True st (Some html)"
    and "length (ex_text (extractContent html)) < 50"
  shows "out_status (handler req e s) = 500 \<and>
         out_reply (handler req e s) = Error_body No_usable_content \<and>
         out_store (handler req e s) = s \<and> out_ops (handler req e s) = []"
  using assms
  by (auto simp: handler_def ingest_def fetch_and_extract_def failed_def message_of_def)

theorem short_text_no_write_witness:
  "out_status (handler (post_url (u ''http://a.io'')) (env0\<lparr>page := Fetched True 200 (Some (u ''<p>hi</p>''))\<rparr>) []) = 500 \<and>
   out_reply (handler (post_url (u ''http://a.io'')) (env0\<lparr>page := Fetched True 200 (Some (u ''<p>hi</p>''))\<rparr>) []) = Error_body No_usable_content \<and>
   out_ops (handler (post_url (u ''http://a.io'')) (env0\<lparr>page := Fetched True 200 (Some (u ''<p>hi</p>''))\<rparr>) []) = []"
  using short_text_no_write [of "post_url (u ''http://a.io'')"
      "env0\<lparr>page := Fetched True 200 (Some (u ''<p>hi</p>''))\<rparr>"
      "u ''http://a.io''" 200 "u ''<p>hi</p>''" "[]"] extract_short
  by (simp add: post_url_def env0_def)

text \<open>
  C8. The read is meant to fail open: a queue document that cannot be read counts as an
  empty queue, and the request goes on (\<open>read_fails_open\<close> covers a document that is not
  listed, a failed listing or fetch, and a body that is not JSON). A body that is JSON but no
  array escapes the \<open>catch\<close>: the read yields that value, the spread of line 102 throws, and
  the request is answered 500 with the store unchanged. With the document \<open>{}\<close> every
  ingestion fails, while with a document that is not JSON at all the same request succeeds.
\<close>

theorem non_array_document_fails:
  "read_pending env0 object_store = JObj [] \<and>
   out_status (handler (post_url (u ''http://a.io'')) env0 object_store) = 500 \<and>
   out_reply (handler (post_url (u ''http://a.io'')) env0 object_store) = Error_body Not_iterable \<and>
   out_store (handler (post_url (u ''http://a.io'')) env0 object_store) = object_store \<and>
   read_pending env0 garbage_store = JArr [] \<and>
   out_status (handler (post_url (u ''http://a.io'')) env0 garbage_store) = 200"
  by (simp add: handler_def post_url_def env0_def ingest_def fetch_and_extract_def
      extract_page50 append_pending_def new_item_def read_pending_def list_blobs_def
      object_store_def garbage_store_def failed_def message_of_def)

text \<open>
  C9 (as amended). The handler draws the id at random and never compares it with the ids
  already queued. A successful append stores its item in front of the list it read; the ids
  of the stored queue are pairwise distinct provided those of the list read were, and the
  random id differs from each of them.
\<close>

theorem append_keeps_ids_distinct:
  assumes "out_reply (handler req e s) = success_body item"
    and "js_iterate (read_pending e s) = Some old"
    and "distinct (map item_id old)"
    and "Some (JStr (rand_id e)) \<notin> set (map item_id old)"
  shows "queue_items (out_store (handler req e s)) = item # old \<and>
         distinct (queue_ids (out_store (handler req e s)))"
proof -
  from handler_success [OF assms(1)] obtain url where h: "handler req e s = ingest url e s"
    by blast
  with assms(1) have "out_reply (ingest url e s) = success_body item" by simp
  from ingest_success [OF this] assms(2) h obtain ex where
    item: "new_item e url ex = Inr item" and
    st: "out_store (handler req e s) = put_blob pending_path (Json (JArr (item # old))) s"
    by auto
  from item have "item_id item = Some (JStr (rand_id e))"
    by (rule new_item_id)
  moreover from st have q: "queue_items (out_store (handler req e s)) = item # old"
    by (simp add: queue_items_def stored_queue_put)
  ultimately show ?thesis using assms(3,4) by (simp add: queue_ids_def)
qed

theorem append_keeps_ids_distinct_witness:
  "queue_items (out_store (handler (post_url (u ''http://b.io'')) (env0\<lparr>rand_id := u ''bbbbbbbb''\<rparr>) one_item_store))
     = [item0 (u ''bbbbbbbb'') (u ''http://b.io''), item0 (u ''aaaaaaaa'') (u ''http://old.io'')] \<and>
   distinct (queue_ids (out_store (handler (post_url (u ''http://b.io'')) (env0\<lparr>rand_id := u ''bbbbbbbb''\<rparr>) one_item_store)))"
proof -
  let ?e = "env0\<lparr>rand_id := u ''bbbbbbbb''\<rparr>"
  have r: "js_iterate (read_pending ?e one_item_store) = Some [item0 (u ''aaaaaaaa'') (u ''http://old.io'')]"
    by (simp add: read_one_item_store)
  have 1: "out_reply (handler (post_url (u ''http://b.io'')) ?e one_item_store)
      = success_body (item0 (u ''bbbbbbbb'') (u ''http://b.io''))"
    using handler_env0(1) [OF _ r] by simp
  have 3: "distinct (map item_id [item0 (u ''aaaaaaaa'') (u ''http://old.io'')])"
    by simp
  have 4: "Some (JStr (rand_id ?e)) \<notin> set (map item_id [item0 (u ''aaaaaaaa'') (u ''http://old.io'')])"
    using ab_differ by (simp add: item_id_item0 env0_def)
  show ?thesis
    using append_keeps_ids_distinct [OF 1 r 3 4] .
qed

text \<open>
  C9 as stated fails: two successive requests for which \<open>Math.random\<close> yields the same
  id, from an empty store, both succeed, and the stored queue holds two items with that id.
\<close>

theorem ids_collide_counterexample:
  "\<not> distinct (queue_ids (out_store (handler (post_url (u ''http://b.io'')) (env0\<lparr>rand_id := u ''aaaaaaaa''\<rparr>)
       (out_store (handler (post_url (u ''http://a.io'')) (env0\<lparr>rand_id := u ''aaaaaaaa''\<rparr>) [])))))"
proof -
  let ?e = "env0\<lparr>rand_id := u ''aaaaaaaa''\<rparr>"
  let ?s1 = "out_store (handler (post_url (u ''http://a.io'')) ?e [])"
  have rA: "js_iterate (read_pending ?e []) = Some []"
    by (simp add: read_pending_def list_blobs_def env0_def)
  have s1: "?s1 = [\<lparr>pathname = pending_path,
      content = Json (JArr [item0 (u ''aaaaaaaa'') (u ''http://a.io'')])\<rparr>]"
    using handler_env0(2) [OF _ rA, of "u ''http://a.io''"] by (simp add: put_blob_def)
  have rB: "js_iterate (read_pending ?e ?s1) = Some [item0 (u ''aaaaaaaa'') (u ''http://a.io'')]"
    unfolding s1 by (simp add: read_pending_def list_blobs_def env0_def)
  have "queue_items (out_store (handler (post_url (u ''http://b.io'')) ?e ?s1))
      = [item0 (u ''aaaaaaaa'') (u ''http://b.io''), item0 (u ''aaaaaaaa'') (u ''http://a.io'')]"
    using handler_env0(2) [OF _ rB, of "u ''http://b.io''"]
    by (simp add: queue_items_def stored_queue_put)
  then show ?thesis
    by (simp add: queue_ids_def item_id_item0)
qed

text \<open>
  C10. The queue read looks for \<open>pending.json\<close> among the first 100 blobs of the listing
  only. When the document exists but is not among them, the read yields the empty list,
  and a request that succeeds overwrites the document with the one-item array of its own
  item: what was queued before is gone.
\<close>

theorem queue_beyond_first_100_is_lost:
  assumes "pending_path \<in> pathname ` set s"
    and "pending_path \<notin> pathname ` set (list_blobs s)"
  shows "read_pending e s = JArr [] \<and>
         (out_reply (handler req e s) = success_body item \<longrightarrow>
            stored_queue (out_store (handler req e s)) = Some (Json (JArr [item])))"
proof (intro conjI impI)
  show r: "read_pending e s = JArr []"
    using assms(2) by (rule read_pending_hidden)
  assume ok: "out_reply (handler req e s) = success_body item"
  from handler_success [OF ok] obtain url where h: "handler req e s = ingest url e s"
    by blast
  with ok have "out_reply (ingest url e s) = success_body item" by simp
  from ingest_success [OF this] r h
  show "stored_queue (out_store (handler req e s)) = Some (Json (JArr [item]))"
    by (auto simp: stored_queue_put)
qed

theorem queue_beyond_first_100_is_lost_witness:
  "queue_items hidden_store = [item0 (u ''aaaaaaaa'') (u ''http://old.io'')] \<and>
   read_pending env0 hidden_store = JArr [] \<and>
   stored_queue (out_store (handler (post_url (u ''http://b.io'')) env0 hidden_store))
     = Some (Json (JArr [item0 (u ''k3j9x0aq'') (u ''http://b.io'')]))"
proof -
  have 1: "pending_path \<in> pathname ` set hidden_store"
    by (simp add: hidden_store_def)
  have 2: "pending_path \<notin> pathname ` set (list_blobs hidden_store)"
    using img_not_pending by (simp add: hidden_store_def list_blobs_def)
  have e: "env0\<lparr>rand_id := u ''k3j9x0aq''\<rparr> = env0"
    by (simp add: env0_def)
  have r: "read_pending env0 hidden_store = JArr []"
    using queue_beyond_first_100_is_lost [OF 1 2] by simp
  have 3: "out_reply (handler (post_url (u ''http://b.io'')) env0 hidden_store)
      = success_body (item0 (u ''k3j9x0aq'') (u ''http://b.io''))"
    using handler_env0(1) [of "u ''http://b.io''" "u ''k3j9x0aq''" hidden_store "[]"] r
    by (simp add: e)
  have q: "queue_items hidden_store = [item0 (u ''aaaaaaaa'') (u ''http://old.io'')]"
    using img_not_pending
    by (simp add: queue_items_def stored_queue_def hidden_store_def find_app find_replicate_None)
  show ?thesis
    using queue_beyond_first_100_is_lost [OF 1 2, of env0 "post_url (u ''http://b.io'')"
        "item0 (u ''k3j9x0aq'') (u ''http://b.io'')"] 3 q
    by simp
qed

section \<open>Creating a record\<close>

text \<open>
  C5. Every record that the manual path or the AI path passes to \<open>onAdd\<close> has a non-empty
  \<open>image\<close>; when the image URL typed by the user is empty or blank, the image is the
  generated URL for the prompt built from brand and title (manual path), or from the
  analysis' image keywords, else its brand (AI path).
\<close>

theorem record_image_nonempty:
  "(handleManualSubmit enc seed formData = Some r \<longrightarrow>
      n_image r \<noteq> [] \<and>
      (trim (n_image formData) = [] \<longrightarrow>
         generateImageUrl enc seed (n_brand formData @ u '' '' @ n_title formData @ u '' automotive'')
           = Some (n_image r))) \<and>
   (handleAiAnalyze enc seed analyze brands aiText aiImageInput = Some r' \<longrightarrow>
      n_image r' \<noteq> [] \<and>
      (trim aiImageInput = [] \<longrightarrow>
         (\<exists>result. analyze aiText brands = Some result \<and>
            generateImageUrl enc seed
              (or_else (case a_image_keywords result of None \<Rightarrow> [] | Some k \<Rightarrow> k)
                       (a_brand result @ u '' car news'')) = Some (n_image r'))))"
  by (auto simp: handleManualSubmit_def handleAiAnalyze_def dest: generated_nonempty
      split: if_splits option.splits)

theorem record_image_nonempty_witness:
  "n_image (form0\<lparr>n_image := url0 (u ''Toyota Camry automotive'')\<rparr>) \<noteq> [] \<and>
   generateImageUrl enc0 7 (u ''Toyota Camry automotive'') = Some (url0 (u ''Toyota Camry automotive'')) \<and>
   handleAiAnalyze enc0 7 (\<lambda>t b. Some rumor) [] (u ''text'') [] \<noteq> None \<and>
   generateImageUrl enc0 7 (u ''car'') = Some (url0 (u ''car''))"
proof -
  have 1: "handleManualSubmit enc0 7 form0 = Some (form0\<lparr>n_image := url0 (u ''Toyota Camry automotive'')\<rparr>)"
    by (simp add: handleManualSubmit_def form0_def trim_blank gen0) (simp add: u_def)
  have 2: "trim (n_image form0) = []"
    by (simp add: form0_def trim_blank)
  show ?thesis
    using record_image_nonempty [of enc0 7 form0 "form0\<lparr>n_image := url0 (u ''Toyota Camry automotive'')\<rparr>"
        "\<lambda>t b. Some rumor" "[]" "u ''text''" "[]" "\<lparr>n_title = u ''Camry'', n_summary = u ''New model'', n_brand = u ''Toyota'',
             n_type = u ''rumor'', n_date = u ''2025-01-13'', n_url = [], n_source = ai_source,
             n_image = url0 (u ''car'')\<rparr>"] 1 2 analyze_rumor
    by (simp add: trim_empty rumor_def or_else_def form0_def u_def)
qed

text \<open>What the AI path does with the \<open>type\<close> of an analysis.\<close>

lemma type_of_created:
  assumes "handleAiAnalyze enc seed analyze brands aiText aiImageInput = Some r"
  shows "\<exists>result. analyze aiText brands = Some result \<and> n_type r = a_type result \<and>
           (n_type r \<in> set news_types \<longleftrightarrow> a_type result \<in> set news_types)"
  using assms
  by (auto simp: handleAiAnalyze_def split: if_splits option.splits)

lemma created_when_available:
  assumes "trim aiText \<noteq> []" and "analyze aiText brands = Some result'"
    and "trim aiImageInput \<noteq> [] \<or>
     enc (or_else (case a_image_keywords result' of None \<Rightarrow> [] | Some k \<Rightarrow> k)
                  (a_brand result' @ u '' car news'')) \<noteq> None"
  shows "\<exists>r'. handleAiAnalyze enc seed analyze brands aiText aiImageInput = Some r' \<and>
         n_type r' = a_type result'"
proof (cases "trim aiImageInput \<noteq> []")
  case True
  with assms(1,2) show ?thesis by (simp add: handleAiAnalyze_def)
next
  case False
  with assms(3) obtain p where
    "enc (or_else (case a_image_keywords result' of None \<Rightarrow> [] | Some k \<Rightarrow> k)
                  (a_brand result' @ u '' car news'')) = Some p"
    by auto
  with False assms(1,2) show ?thesis
    by (simp add: handleAiAnalyze_def generateImageUrl_def)
qed


text \<open>
  C4 (as amended). The AI path does not look at the \<open>type\<close> of the analysis. Whenever the
  text is not blank, the analysis resolves and the image is available (an image URL was
  typed, or \<open>encodeURIComponent\<close> accepts the prompt), a record is created, whatever the
  \<open>type\<close> of the analysis is: no response is rejected for its type. Every record created
  carries the \<open>type\<close> of the analysis unchanged, so it is a value of the enumeration exactly
  when the analysis' \<open>type\<close> was one.
\<close>

theorem type_passed_through:
  "(handleAiAnalyze enc seed analyze brands aiText aiImageInput = Some r \<longrightarrow>
      (\<exists>result. analyze aiText brands = Some result \<and> n_type r = a_type result \<and>
         (n_type r \<in> set news_types \<longleftrightarrow> a_type result \<in> set news_types))) \<and>
   (trim aiText \<noteq> [] \<and> analyze aiText brands = Some result' \<and>
    (trim aiImageInput \<noteq> [] \<or>
     enc (or_else (case a_image_keywords result' of None \<Rightarrow> [] | Some k \<Rightarrow> k)
                  (a_brand result' @ u '' car news'')) \<noteq> None) \<longrightarrow>
      (\<exists>r'. handleAiAnalyze enc seed analyze brands aiText aiImageInput = Some r' \<and>
         n_type r' = a_type result'))"
proof (intro conjI impI)
  assume "handleAiAnalyze enc seed analyze brands aiText aiImageInput = Some r"
  then show "\<exists>result. analyze aiText brands = Some result \<and> n_type r = a_type result \<and>
         (n_type r \<in> set news_types \<longleftrightarrow> a_type result \<in> set news_types)"
    by (rule type_of_created)
next
  assume "trim aiText \<noteq> [] \<and> analyze aiText brands = Some result' \<and>
    (trim aiImageInput \<noteq> [] \<or>
     enc (or_else (case a_image_keywords result' of None \<Rightarrow> [] | Some k \<Rightarrow> k)
                  (a_brand result' @ u '' car news'')) \<noteq> None)"
  then show "\<exists>r'. handleAiAnalyze enc seed analyze brands aiText aiImageInput = Some r' \<and>
         n_type r' = a_type result'"
    using created_when_available [of aiText analyze brands result' aiImageInput enc seed] by blast
qed

theorem type_passed_through_witness:
  "map_option n_type (handleAiAnalyze enc0 7 (\<lambda>t b. Some rumor) [] (u ''text'') [])
     = Some (a_type rumor) \<and>
   (\<exists>r'. handleAiAnalyze enc0 7 (\<lambda>t b. Some rumor) [] (u ''text'') [] = Some r' \<and>
      n_type r' = a_type rumor)"
proof -
  note passed = type_passed_through [of enc0 7 "\<lambda>t b. Some rumor" "[]" "u ''text''" "[]"
      "\<lparr>n_title = u ''Camry'', n_summary = u ''New model'', n_brand = u ''Toyota'',
         n_type = u ''rumor'', n_date = u ''2025-01-13'', n_url = [], n_source = ai_source,
         n_image = url0 (u ''car'')\<rparr>" rumor]
  have 1: "trim (u ''text'') \<noteq> [] \<and> (\<lambda>t b. Some rumor) (u ''text'') [] = Some rumor \<and>
      (trim [] \<noteq> [] \<or>
       enc0 (or_else (case a_image_keywords rumor of None \<Rightarrow> [] | Some k \<Rightarrow> k)
                     (a_brand rumor @ u '' car news'')) \<noteq> None)"
    using trim_text by (simp add: enc0_def)
  from passed analyze_rumor
  have "map_option n_type (handleAiAnalyze enc0 7 (\<lambda>t b. Some rumor) [] (u ''text'') [])
      = Some (a_type rumor)"
    by simp
  moreover from passed 1
  have "\<exists>r'. handleAiAnalyze enc0 7 (\<lambda>t b. Some rumor) [] (u ''text'') [] = Some r' \<and>
      n_type r' = a_type rumor"
    by blast
  ultimately show ?thesis by simp
qed

text \<open>
  C4 as stated fails: for an analysis whose \<open>type\<close> is \<open>rumor\<close>, outside the enumeration,
  the record created has the type \<open>rumor\<close>, not \<open>other\<close>.
\<close>

theorem type_not_coerced_counterexample:
  "a_type rumor \<notin> set news_types \<and>
   map_option n_type (handleAiAnalyze enc0 7 (\<lambda>t b. Some rumor) [] (u ''text'') []) = Some (u ''rumor'') \<and>
   u ''rumor'' \<noteq> u ''other''"
proof -
  have "a_type rumor \<notin> set news_types" "u ''rumor'' \<noteq> u ''other''"
    by (simp_all add: rumor_def news_types_def u_def)
  then show ?thesis
    by (simp add: analyze_rumor)
qed


end
